theory Spec2Isabelle
  imports Complex_Main
begin

section \<open>Data model\<close>

text \<open>
  The script \<^verbatim>\<open>zillowgif.py\<close> has two functions, \<^verbatim>\<open>download_data\<close> and
  \<^verbatim>\<open>generate_zhvi_animation\<close>. Everything they touch outside their arguments is made a
  field of an explicit \<open>world\<close>: the files of the working directory, what the remote
  server would answer, and a counter of the HTTP requests made.

  A cell of a date column is a number or empty (pandas' NaN). Numbers are modelled as
  exact rationals: the float literals \<^verbatim>\<open>0.05\<close>, \<^verbatim>\<open>0.1\<close>, \<^verbatim>\<open>0.3\<close>, \<^verbatim>\<open>0.15\<close> of the source
  are the rationals they denote, and rounding is not modelled.
\<close>

datatype cell = Null | Val rat

text \<open>
  A row of the table, by the schema the script relies on: the columns \<^verbatim>\<open>RegionName\<close>,
  \<^verbatim>\<open>City\<close> and \<^verbatim>\<open>State\<close>, and one cell under every column header.
\<close>

record region_row =
  RegionName :: int
  City :: string
  State :: string
  cells :: "string \<Rightarrow> cell"

record dataframe =
  columns :: "string list"
  rows :: "region_row list"

text \<open>What \<^verbatim>\<open>pd.read_csv\<close> makes of a file's bytes: it raises, or it returns a table.\<close>

datatype csv_content = Unreadable | Table dataframe

text \<open>
  What \<^verbatim>\<open>requests.get\<close> followed by \<^verbatim>\<open>raise_for_status\<close> and the chunked copy does:
  the connection fails, the status is 4xx/5xx, the body arrives whole, or the stream
  breaks after the local file was opened (what was written so far stays on disk).
\<close>

datatype response = ConnectionFailed | BadStatus | Streamed csv_content | Interrupted csv_content

text \<open>
  A rendered frame: the index \<open>i\<close> of the loop, the values \<^verbatim>\<open>values[:i+1]\<close> that are
  plotted, the y-limits given to \<^verbatim>\<open>ax.set_ylim\<close> and the location shown in the title.
  The x-limits, the month in the title and the styling are not modelled.
\<close>

record frame =
  frame_index :: nat
  plotted :: "cell list"
  ylim :: "rat \<times> rat"
  location_info :: string

record animation =
  frames :: "frame list"
  duration :: rat

datatype stored = Csv csv_content | Gif animation

record world =
  fs :: "string \<Rightarrow> stored option"
  remote :: "string \<Rightarrow> response"
  net_calls :: nat

text \<open>
  The two library parsers the script calls are parameters of the model:
  \<open>py_int s\<close> is \<^verbatim>\<open>int(s)\<close> (\<open>None\<close> when it raises \<^verbatim>\<open>ValueError\<close>) and
  \<open>strptime s\<close> is \<^verbatim>\<open>datetime.strptime(s, '%Y-%m-%d')\<close> as (year, month, day)
  (\<open>None\<close> when it raises).
\<close>

record builtins =
  py_int :: "string \<Rightarrow> int option"
  strptime :: "string \<Rightarrow> (nat \<times> nat \<times> nat) option"

text \<open>
  A run stops early in two ways: the script prints a message and returns (\<open>Abort\<close>, one
  constructor per message), or an exception that nothing catches leaves the function
  (\<open>Raise\<close>).
\<close>

datatype abort_msg =
  DownloadFailed | CsvReadError | InvalidZipFormat | ZipNotFound | NoDateColumns | NoZhviData

datatype py_exception = AttributeError | ValueError

datatype stop = Abort abort_msg | Raise py_exception

section \<open>Constants\<close>

definition DATA_URL :: string where
  "DATA_URL = ''https://files.zillowstatic.com/research/public_csvs/zhvi/Zip_zhvi_uc_sfrcondo_tier_0.33_0.67_sm_sa_month.csv''"

definition CSV_FILENAME :: string where
  "CSV_FILENAME = ''zhvi_zip_data.csv''"

definition max_frames_for_gif :: nat where
  "max_frames_for_gif = 150"

section \<open>Step 1: the dataset fetcher\<close>

text \<open>
  \<^verbatim>\<open>download_data(url, filename)\<close>: one GET request. \<open>True\<close> only when the whole body was
  written; a request exception gives \<open>False\<close>.
\<close>

definition download_data :: "string \<Rightarrow> string \<Rightarrow> world \<Rightarrow> bool \<times> world" where
  "download_data url filename w =
     (let w1 = w\<lparr>net_calls := net_calls w + 1\<rparr> in
      case remote w url of
        ConnectionFailed \<Rightarrow> (False, w1)
      | BadStatus \<Rightarrow> (False, w1)
      | Streamed c \<Rightarrow> (True, w1\<lparr>fs := (fs w1)(filename \<mapsto> Csv c)\<rparr>)
      | Interrupted c \<Rightarrow> (False, w1\<lparr>fs := (fs w1)(filename \<mapsto> Csv c)\<rparr>))"

text \<open>
  \<^verbatim>\<open>if not os.path.exists(CSV_FILENAME): if not download_data(...): return\<close>.
  The boolean says whether the run goes on.
\<close>

definition ensure_data :: "world \<Rightarrow> bool \<times> world" where
  "ensure_data w =
     (if fs w CSV_FILENAME \<noteq> None then (True, w)
      else download_data DATA_URL CSV_FILENAME w)"

section \<open>Step 2: loading the table\<close>

definition read_csv :: "world \<Rightarrow> string \<Rightarrow> dataframe option" where
  "read_csv w filename =
     (case fs w filename of
        Some (Csv (Table df)) \<Rightarrow> Some df
      | _ \<Rightarrow> None)"

section \<open>Steps 3 and 4: the series extractor\<close>

text \<open>The loop over \<^verbatim>\<open>df.columns\<close> that collects the headers \<^verbatim>\<open>strptime\<close> accepts.\<close>

fun find_date_columns :: "builtins \<Rightarrow> string list \<Rightarrow> string list" where
  "find_date_columns lib [] = []"
| "find_date_columns lib (col_name # cols) =
     (case strptime lib col_name of
        Some d \<Rightarrow> col_name # find_date_columns lib cols
      | None \<Rightarrow> find_date_columns lib cols)"

text \<open>
  \<^verbatim>\<open>zip_data_row[date_columns].squeeze()\<close>. pandas squeezes every axis of length one:
  a 1x1 selection becomes a scalar, a single row or a single column becomes a Series,
  anything else stays a DataFrame.
\<close>

datatype squeezed = Scalar cell | Series "cell list" | Unsqueezed "cell list list"

fun select_squeeze :: "region_row list \<Rightarrow> string list \<Rightarrow> squeezed" where
  "select_squeeze [r] [c] = Scalar (cells r c)"
| "select_squeeze [r] cs = Series (map (cells r) cs)"
| "select_squeeze rs [c] = Series (map (\<lambda>r. cells r c) rs)"
| "select_squeeze rs cs = Unsqueezed (map (\<lambda>r. map (cells r) cs) rs)"

definition isnull :: "cell \<Rightarrow> bool" where
  "isnull c = (c = Null)"

text \<open>
  \<^verbatim>\<open>if zhvi_series.empty or zhvi_series.isnull().all()\<close>. A scalar has no attribute
  \<^verbatim>\<open>empty\<close>; on a DataFrame (reached with at least two rows and two columns)
  \<^verbatim>\<open>isnull().all()\<close> is a Series of several booleans, whose truth value raises.
\<close>

definition check_series :: "squeezed \<Rightarrow> stop + cell list" where
  "check_series z =
     (case z of
        Scalar c \<Rightarrow> Inl (Raise AttributeError)
      | Unsqueezed m \<Rightarrow> Inl (Raise ValueError)
      | Series zhvi_series \<Rightarrow>
          if zhvi_series = [] \<or> list_all isnull zhvi_series then Inl (Abort NoZhviData)
          else Inr zhvi_series)"

text \<open>
  Steps 3 and 4 of \<^verbatim>\<open>generate_zhvi_animation\<close> on the loaded table, in the order of the
  source: parse the identifier, select the rows, find the date columns, take the series.
  The result is the series and the first matched row (read later for the title).
\<close>

definition series_extractor :: "builtins \<Rightarrow> dataframe \<Rightarrow> string \<Rightarrow> stop + (cell list \<times> region_row)" where
  "series_extractor lib df zip_code_str =
     (case py_int lib zip_code_str of
        None \<Rightarrow> Inl (Abort InvalidZipFormat)
      | Some zip_code_int \<Rightarrow>
          (case filter (\<lambda>r. RegionName r = zip_code_int) (rows df) of
             [] \<Rightarrow> Inl (Abort ZipNotFound)
           | r0 # rest \<Rightarrow>
               (case find_date_columns lib (columns df) of
                  [] \<Rightarrow> Inl (Abort NoDateColumns)
                | c0 # cs \<Rightarrow>
                    (case check_series (select_squeeze (r0 # rest) (c0 # cs)) of
                       Inl e \<Rightarrow> Inl e
                     | Inr zhvi_series \<Rightarrow> Inr (zhvi_series, r0)))))"

section \<open>Step 5: the frame sampler and the renderer\<close>

definition frame_step :: "nat \<Rightarrow> nat" where
  "frame_step num_points =
     (if num_points > max_frames_for_gif then max 1 (num_points div max_frames_for_gif)
      else 1)"

text \<open>
  \<^verbatim>\<open>range(start, stop, step)\<close> for a step that is not negative: Python raises
  \<^verbatim>\<open>ValueError\<close> on a zero step.
\<close>

function range_loop :: "nat \<Rightarrow> nat \<Rightarrow> nat \<Rightarrow> nat list" where
  "range_loop i stop step =
     (if step = 0 \<or> stop \<le> i then [] else i # range_loop (i + step) stop step)"
  by pat_completeness auto
termination
  by (relation "measure (\<lambda>(i, stop, step). stop - i)") auto

declare range_loop.simps [simp del]

definition py_range :: "nat \<Rightarrow> nat \<Rightarrow> nat \<Rightarrow> py_exception + nat list" where
  "py_range start stop step =
     (if step = 0 then Inl ValueError else Inr (range_loop start stop step))"

definition frame_indices :: "nat \<Rightarrow> py_exception + nat list" where
  "frame_indices num_points = py_range 0 num_points (frame_step num_points)"

text \<open>
  \<^verbatim>\<open>zhvi_series.min()\<close> and \<^verbatim>\<open>max()\<close> skip the empty cells. They are read only after the
  all-null check, on a series with a value.
\<close>

definition non_null :: "cell list \<Rightarrow> rat list" where
  "non_null cs = concat (map (\<lambda>c. case c of Null \<Rightarrow> [] | Val v \<Rightarrow> [v]) cs)"

definition overall_min_val :: "cell list \<Rightarrow> rat" where
  "overall_min_val zhvi_series = Min (set (non_null zhvi_series))"

definition overall_max_val :: "cell list \<Rightarrow> rat" where
  "overall_max_val zhvi_series = Max (set (non_null zhvi_series))"

definition y_padding :: "rat \<Rightarrow> rat \<Rightarrow> rat" where
  "y_padding mn mx =
     (let p = (mx - mn) * (5 / 100) in
      if p = 0 then (if mn \<noteq> 0 then mn * (1 / 10) else 10000) else p)"

definition y_limits :: "cell list \<Rightarrow> rat \<times> rat" where
  "y_limits zhvi_series =
     (let mn = overall_min_val zhvi_series; mx = overall_max_val zhvi_series;
          p = y_padding mn mx
      in (mn - p, mx + p))"

definition render_frame :: "cell list \<Rightarrow> rat \<times> rat \<Rightarrow> string \<Rightarrow> nat \<Rightarrow> frame" where
  "render_frame vals yl loc i =
     \<lparr>frame_index = i, plotted = take (i + 1) vals, ylim = yl, location_info = loc\<rparr>"

section \<open>Step 6: the encoder\<close>

definition duration_per_frame_seconds :: "nat \<Rightarrow> rat" where
  "duration_per_frame_seconds num_actual_frames =
     (if num_actual_frames < 50 then 3 / 10
      else if num_actual_frames > 120 then 1 / 10
      else 15 / 100)"

text \<open>Steps 5 and 6 on the extracted series: the frames in loop order and the duration.\<close>

definition build_animation :: "cell list \<Rightarrow> region_row \<Rightarrow> py_exception + animation" where
  "build_animation zhvi_series r0 =
     (case frame_indices (length zhvi_series) of
        Inl e \<Rightarrow> Inl e
      | Inr idxs \<Rightarrow>
          (let loc = City r0 @ '', '' @ State r0;
               yl = y_limits zhvi_series;
               fr = map (render_frame zhvi_series yl loc) idxs
           in Inr \<lparr>frames = fr, duration = duration_per_frame_seconds (length fr)\<rparr>))"

section \<open>The whole run\<close>

definition gif_filename :: "string \<Rightarrow> string" where
  "gif_filename zip_code_str = ''zhvi_animation_'' @ zip_code_str @ ''.gif''"

text \<open>
  \<^verbatim>\<open>generate_zhvi_animation(zip_code_str)\<close>. The result is the name of the file written,
  or how the run stopped, together with the world the run leaves behind.
\<close>

definition generate_zhvi_animation :: "builtins \<Rightarrow> string \<Rightarrow> world \<Rightarrow> (stop + string) \<times> world" where
  "generate_zhvi_animation lib zip_code_str w =
     (case ensure_data w of
        (False, w1) \<Rightarrow> (Inl (Abort DownloadFailed), w1)
      | (True, w1) \<Rightarrow>
          (case read_csv w1 CSV_FILENAME of
             None \<Rightarrow> (Inl (Abort CsvReadError), w1)
           | Some df \<Rightarrow>
               (case series_extractor lib df zip_code_str of
                  Inl e \<Rightarrow> (Inl e, w1)
                | Inr (zhvi_series, r0) \<Rightarrow>
                    (case build_animation zhvi_series r0 of
                       Inl e \<Rightarrow> (Inl (Raise e), w1)
                     | Inr anim \<Rightarrow>
                         (Inr (gif_filename zip_code_str),
                          w1\<lparr>fs := (fs w1)(gif_filename zip_code_str \<mapsto> Gif anim)\<rparr>)))))"

section \<open>Example inputs\<close>

text \<open>
  An instance of the two builtins that agrees with Python on every string the examples
  below pass to it; the theorems hold for every instance.
\<close>

definition example_lib :: builtins where
  "example_lib =
     \<lparr>py_int = (\<lambda>s. if s = ''12345'' then Some 12345
                    else if s = ''01234'' then Some 1234 else None),
      strptime = (\<lambda>s. if s = ''2020-01-31'' then Some (2020, 1, 31)
                      else if s = ''2020-02-29'' then Some (2020, 2, 29) else None)\<rparr>"

text \<open>A table with two monthly columns and one region, 01234 Springfield, IL.\<close>

definition example_row :: region_row where
  "example_row =
     \<lparr>RegionName = 1234, City = ''Springfield'', State = ''IL'',
      cells = (\<lambda>c. if c = ''2020-01-31'' then Val 100
                   else if c = ''2020-02-29'' then Val 110 else Null)\<rparr>"

definition example_df :: dataframe where
  "example_df =
     \<lparr>columns = [''RegionName'', ''City'', ''State'', ''2020-01-31'', ''2020-02-29''],
      rows = [example_row]\<rparr>"

text \<open>A working directory that holds this table as the cached file, and a dead network.\<close>

definition example_world :: world where
  "example_world =
     \<lparr>fs = (\<lambda>f. if f = CSV_FILENAME then Some (Csv (Table example_df)) else None),
      remote = (\<lambda>url. ConnectionFailed),
      net_calls = 0\<rparr>"

text \<open>
  A table with a single monthly column, whose only row (region 12345) has nothing in it.
\<close>

definition empty_cell_row :: region_row where
  "empty_cell_row =
     \<lparr>RegionName = 12345, City = ''Springfield'', State = ''IL'', cells = (\<lambda>c. Null)\<rparr>"

definition one_month_df :: dataframe where
  "one_month_df =
     \<lparr>columns = [''RegionName'', ''City'', ''State'', ''2020-01-31''],
      rows = [empty_cell_row]\<rparr>"

definition one_month_world :: world where
  "one_month_world =
     \<lparr>fs = (\<lambda>f. if f = CSV_FILENAME then Some (Csv (Table one_month_df)) else None),
      remote = (\<lambda>url. ConnectionFailed),
      net_calls = 0\<rparr>"

section \<open>The frame sampler\<close>

lemma frame_step_pos: "0 < frame_step n"
  by (simp add: frame_step_def max_def)

lemma range_loop_map:
  "0 < s \<Longrightarrow> range_loop i n s = map (\<lambda>k. i + k * s) [0..<(n - i + s - 1) div s]"
proof (induction i n s rule: range_loop.induct)
  case (1 i stop step)
  show ?case
  proof (cases "stop \<le> i")
    case True
    with "1.prems" show ?thesis by (simp add: range_loop.simps[of i])
  next
    case False
    with "1.prems" have ih: "range_loop (i + step) stop step =
        map (\<lambda>k. i + step + k * step) [0..<(stop - (i + step) + step - 1) div step]"
      using "1.IH" by simp
    have cnt: "(stop - i + step - 1) div step = Suc ((stop - (i + step) + step - 1) div step)"
    proof -
      define a where "a = stop - (i + step) + step - 1"
      define b where "b = stop - i + step - 1"
      define c where "c = stop - i - 1"
      have bc: "b = c + step"
        using False unfolding b_def c_def by simp
      have "c div step = a div step"
      proof (cases "i + step \<le> stop")
        case True
        then have "c = a" unfolding a_def c_def by simp
        then show ?thesis by simp
      next
        case f: False
        then have "c < step" "a < step"
          using False "1.prems" unfolding a_def c_def by simp_all
        then show ?thesis by simp
      qed
      with bc have "b div step = Suc (a div step)"
        using "1.prems" by simp
      then show ?thesis unfolding a_def b_def .
    qed
    have "range_loop i stop step = i # range_loop (i + step) stop step"
      using False "1.prems" by (simp add: range_loop.simps[of i])
    also have "\<dots> = map (\<lambda>k. i + k * step) [0..<(stop - i + step - 1) div step]"
      unfolding ih cnt by (simp add: upt_conv_Cons map_Suc_upt[symmetric] del: upt_Suc)
    finally show ?thesis .
  qed
qed


lemma frame_indices_map:
  "frame_indices n =
     Inr (map (\<lambda>k. k * frame_step n) [0..<(n + frame_step n - 1) div frame_step n])"
  using frame_step_pos[of n] by (simp add: frame_indices_def py_range_def range_loop_map)

lemma count_Suc: "0 < s \<Longrightarrow> 1 \<le> n \<Longrightarrow> (n + s - 1) div s = Suc ((n - 1) div s)"
proof -
  assume s: "0 < s" and n: "1 \<le> (n::nat)"
  then have "n + s - 1 = (n - 1) + s" by simp
  then have "(n + s - 1) div s = ((n - 1) + s) div s" by (rule arg_cong)
  with s show ?thesis by simp
qed

lemma below_count_iff: "0 < s \<Longrightarrow> k < (n + s - 1) div s \<longleftrightarrow> k * s < (n::nat)"
proof -
  assume s: "0 < s"
  have "k < (n + s - 1) div s \<longleftrightarrow> Suc k \<le> (n + s - 1) div s" by (simp add: Suc_le_eq)
  also have "\<dots> \<longleftrightarrow> Suc k * s \<le> n + s - 1"
    using s by (simp add: less_eq_div_iff_mult_less_eq)
  also have "\<dots> \<longleftrightarrow> k * s < n" using s by auto
  finally show ?thesis .
qed

lemma set_multiples:
  "0 < s \<Longrightarrow> set (map (\<lambda>k. k * s) [0..<(n + s - 1) div s]) = {j. j < n \<and> s dvd j}"
proof -
  assume s: "0 < s"
  show ?thesis
  proof (rule set_eqI)
    fix j
    show "j \<in> set (map (\<lambda>k. k * s) [0..<(n + s - 1) div s]) \<longleftrightarrow> j \<in> {j. j < n \<and> s dvd j}"
    proof
      assume "j \<in> set (map (\<lambda>k. k * s) [0..<(n + s - 1) div s])"
      then obtain k where "k < (n + s - 1) div s" "j = k * s" by auto
      with below_count_iff[OF s, of k n] show "j \<in> {j. j < n \<and> s dvd j}" by simp
    next
      assume "j \<in> {j. j < n \<and> s dvd j}"
      then obtain k where k: "j = k * s" "j < n" by (auto simp: dvd_def mult.commute)
      with below_count_iff[OF s, of k n] have "k < (n + s - 1) div s" by simp
      with k show "j \<in> set (map (\<lambda>k. k * s) [0..<(n + s - 1) div s])" by auto
    qed
  qed
qed

lemma sorted_multiples: "0 < s \<Longrightarrow> sorted_wrt (<) (map (\<lambda>k. k * (s::nat)) [0..<m])"
  by (simp add: sorted_wrt_map sorted_wrt_iff_nth_less)

lemma range_loop_step1: "range_loop 0 n (Suc 0) = [0..<n]"
  by (simp add: range_loop_map map_idI)


lemma frame_step_small: "n \<le> 150 \<Longrightarrow> frame_step n = 1"
  by (simp add: frame_step_def max_frames_for_gif_def)

lemma frame_indices_Suc:
  assumes "1 \<le> n"
  shows "frame_indices n = Inr (map (\<lambda>k. k * frame_step n) [0..<Suc ((n - 1) div frame_step n)])"
  using frame_indices_map[of n] count_Suc[OF frame_step_pos assms] by simp

lemma frame_indices_small: "n \<le> 150 \<Longrightarrow> frame_indices n = Inr [0..<n]"
  by (simp add: frame_indices_def py_range_def frame_step_small range_loop_step1)

text \<open>
  Claim C2. For a series of \<open>N \<ge> 1\<close> points the stride is 1 when \<open>N \<le> 150\<close> and
  \<open>max 1 (N div 150)\<close> otherwise; the loop \<^verbatim>\<open>range(0, num_points, frame_step)\<close> returns,
  and its indices are the multiples \<open>0, S, 2S, ...\<close> of the stride below \<open>N\<close>, in
  strictly increasing order, starting with 0; for \<open>N \<le> 150\<close> they are all of
  \<open>0, ..., N - 1\<close>.
\<close>

theorem C2_frame_sampler:
  assumes "1 \<le> N"
  shows "frame_step N = (if N \<le> 150 then 1 else max 1 (N div 150)) \<and>
    (\<exists>idxs. frame_indices N = Inr idxs \<and>
       idxs = map (\<lambda>k. k * frame_step N) [0..<Suc ((N - 1) div frame_step N)] \<and>
       set idxs = {j. j < N \<and> frame_step N dvd j} \<and>
       sorted_wrt (<) idxs \<and> hd idxs = 0 \<and>
       (N \<le> 150 \<longrightarrow> frame_step N = 1 \<and> idxs = [0..<N]))"
proof -
  define S where "S = frame_step N"
  define idxs where "idxs = map (\<lambda>k. k * S) [0..<Suc ((N - 1) div S)]"
  have S: "0 < S" unfolding S_def by (rule frame_step_pos)
  have stride: "frame_step N = (if N \<le> 150 then 1 else max 1 (N div 150))"
    by (simp add: frame_step_def max_frames_for_gif_def)
  have run: "frame_indices N = Inr idxs"
    unfolding idxs_def S_def by (rule frame_indices_Suc[OF assms])
  have cnt: "Suc ((N - 1) div S) = (N + S - 1) div S"
    using count_Suc[OF S assms] by simp
  have mem: "set idxs = {j. j < N \<and> S dvd j}"
    unfolding idxs_def cnt by (rule set_multiples[OF S])
  have incr: "sorted_wrt (<) idxs"
    unfolding idxs_def by (rule sorted_multiples[OF S])
  have first: "hd idxs = 0"
    unfolding idxs_def by (simp add: upt_conv_Cons del: upt_Suc)
  have small: "N \<le> 150 \<longrightarrow> frame_step N = 1 \<and> idxs = [0..<N]"
    using run by (auto simp: frame_step_small frame_indices_small)
  from stride run mem incr first small show ?thesis
    unfolding idxs_def S_def by blast
qed

theorem C2_frame_sampler_witness:
  "1 \<le> (300::nat) \<and> frame_step 300 = 2 \<and>
   frame_indices 300 = Inr (map (\<lambda>k. k * 2) [0..<150])"
proof -
  have s: "frame_step 300 = 2" by (simp add: frame_step_def max_frames_for_gif_def)
  from C2_frame_sampler[of 300] s show ?thesis by simp
qed

lemma last_multiples: "last (map (\<lambda>k. k * (s::nat)) [0..<Suc m]) = m * s"
  by (simp add: last_map)

lemma div_mult_floor: "(n::nat) div s * s = n - n mod s"
  by (simp add: minus_mod_eq_div_mult)

text \<open>
  Claim C10. For a series of \<open>N \<ge> 1\<close> points with stride \<open>S\<close>, the loop returns a
  non-empty list whose last and largest index is \<open>(N - 1) - ((N - 1) mod S)\<close>; the final
  data point \<open>N - 1\<close> is a frame exactly when \<open>S\<close> divides \<open>N - 1\<close>. For \<open>N = 300\<close>
  the stride is 2, the last frame is 298 and 299 is left out.
\<close>

theorem C10_last_frame_index:
  assumes "1 \<le> N"
  shows "\<exists>idxs. frame_indices N = Inr idxs \<and> idxs \<noteq> [] \<and>
       last idxs = (N - 1) - ((N - 1) mod frame_step N) \<and>
       Max (set idxs) = last idxs \<and>
       ((N - 1) \<in> set idxs \<longleftrightarrow> frame_step N dvd (N - 1))"
proof -
  define S where "S = frame_step N"
  define idxs where "idxs = map (\<lambda>k. k * S) [0..<Suc ((N - 1) div S)]"
  have S: "0 < S" unfolding S_def by (rule frame_step_pos)
  have run: "frame_indices N = Inr idxs"
    unfolding idxs_def S_def by (rule frame_indices_Suc[OF assms])
  have ne: "idxs \<noteq> []" unfolding idxs_def by simp
  have "last idxs = (N - 1) div S * S"
    unfolding idxs_def by (rule last_multiples)
  then have lst: "last idxs = (N - 1) - ((N - 1) mod S)"
    by (simp only: div_mult_floor)
  have cnt: "Suc ((N - 1) div S) = (N + S - 1) div S"
    using count_Suc[OF S assms] by simp
  have mem: "set idxs = {j. j < N \<and> S dvd j}"
    unfolding idxs_def cnt by (rule set_multiples[OF S])
  have "Max (set idxs) = last idxs"
  proof (rule Max_eqI)
    show "finite (set idxs)" by simp
    show "last idxs \<in> set idxs" using ne by simp
    fix j assume "j \<in> set idxs"
    then have j: "j < N" "S dvd j" using mem by auto
    then obtain k where k: "j = k * S" by (auto simp: dvd_def mult.commute)
    from j have "j \<le> N - 1" by simp
    then have "k \<le> (N - 1) div S" using S k by (simp add: less_eq_div_iff_mult_less_eq)
    then have "k * S \<le> (N - 1) div S * S" by (rule mult_le_mono1)
    then show "j \<le> last idxs" using k \<open>last idxs = (N - 1) div S * S\<close> by simp
  qed
  moreover have "(N - 1) \<in> set idxs \<longleftrightarrow> S dvd (N - 1)"
    using assms mem by auto
  ultimately show ?thesis using run ne lst unfolding S_def by blast
qed

theorem C10_last_frame_index_witness:
  "1 \<le> (300::nat) \<and> frame_step 300 = 2 \<and>
   (\<exists>idxs. frame_indices 300 = Inr idxs \<and> last idxs = 298 \<and> Max (set idxs) = 298 \<and>
      299 \<notin> set idxs)"
proof -
  have s: "frame_step 300 = 2" by (simp add: frame_step_def max_frames_for_gif_def)
  have a: "(300 - 1) - ((300 - 1) mod 2) = (298::nat)" by simp
  have b: "\<not> (2::nat) dvd (300 - 1)" by simp
  from C10_last_frame_index[of 300] obtain idxs where
    "frame_indices 300 = Inr idxs" "last idxs = (300 - 1) - ((300 - 1) mod frame_step 300)"
    "Max (set idxs) = last idxs" "(300 - 1) \<in> set idxs \<longleftrightarrow> frame_step 300 dvd (300 - 1)"
    by auto
  then have "frame_indices 300 = Inr idxs \<and> last idxs = 298 \<and> Max (set idxs) = 298 \<and>
      299 \<notin> set idxs"
    unfolding s a using b by simp
  moreover have "1 \<le> (300::nat)" by simp
  ultimately show ?thesis using s by blast
qed

lemma frame_count_bound:
  assumes "frame_indices N = Inr idxs"
  shows "length idxs \<le> 299"
proof (cases "N \<le> 150")
  case True
  with assms have "idxs = [0..<N]" by (simp add: frame_indices_small)
  with True show ?thesis by simp
next
  case False
  define S where "S = N div 150"
  from False have S1: "1 \<le> S" unfolding S_def by (simp add: Suc_le_eq div_greater_zero_iff)
  then have st: "frame_step N = S"
    using False by (simp add: frame_step_def max_frames_for_gif_def S_def max_def)
  have "N = 150 * S + N mod 150" unfolding S_def by simp
  moreover have "N mod 150 < 150" by simp
  ultimately have "N < 150 * S + 150" by linarith
  with S1 have "N + S - 1 < 300 * S" by simp
  then have "(N + S - 1) div S < 300" using S1
    by (simp add: div_less_iff_less_mult mult.commute)
  moreover have "length idxs = (N + S - 1) div S"
    using assms frame_indices_map[of N] st by auto
  ultimately show ?thesis by simp
qed

lemma frame_indices_stride1: "frame_step n = 1 \<Longrightarrow> frame_indices n = Inr [0..<n]"
  by (simp add: frame_indices_def py_range_def range_loop_step1)

text \<open>
  Claim C1 says that at most 150 frame indices are produced for every \<open>N \<ge> 1\<close>. The
  code names the budget \<^verbatim>\<open>max_frames_for_gif\<close> but divides rounding down, so a series of
  151 points has stride 1 and gives 151 frames. (By \<open>frame_count_bound\<close> the count
  never exceeds 299.)
\<close>

theorem C1_frame_budget_exceeded:
  "\<exists>idxs. frame_indices 151 = Inr idxs \<and> length idxs = 151 \<and>
     max_frames_for_gif < length idxs"
proof -
  have s: "frame_step 151 = 1" by (simp add: frame_step_def max_frames_for_gif_def)
  have run: "frame_indices 151 = Inr [0..<151]" using s by (rule frame_indices_stride1)
  have len: "length [0..<(151::nat)] = 151" by (simp only: length_upt diff_zero)
  have "max_frames_for_gif < length [0..<(151::nat)]"
    unfolding len by (simp add: max_frames_for_gif_def)
  with run len show ?thesis by blast
qed

text \<open>
  Claim C3. The duration per frame depends on the number \<open>F\<close> of rendered frames only:
  0.3 s for \<open>F < 50\<close>, 0.1 s for \<open>F > 120\<close>, 0.15 s for \<open>50 \<le> F \<le> 120\<close>; so 49 is
  slow, 50 and 120 are in the middle tier, 121 is fast. The animation that a run builds
  carries this duration for the length of its own frame list.
\<close>

theorem C3_duration_tiers:
  "(F < 50 \<longrightarrow> duration_per_frame_seconds F = 3 / 10) \<and>
   (120 < F \<longrightarrow> duration_per_frame_seconds F = 1 / 10) \<and>
   (50 \<le> F \<and> F \<le> 120 \<longrightarrow> duration_per_frame_seconds F = 15 / 100) \<and>
   duration_per_frame_seconds 49 = 3 / 10 \<and>
   duration_per_frame_seconds 50 = 15 / 100 \<and>
   duration_per_frame_seconds 120 = 15 / 100 \<and>
   duration_per_frame_seconds 121 = 1 / 10 \<and>
   (build_animation zhvi_series r0 = Inr anim \<longrightarrow>
      duration anim = duration_per_frame_seconds (length (frames anim)))"
  by (auto simp: duration_per_frame_seconds_def build_animation_def Let_def split: sum.splits)

lemma non_null_simps:
  "non_null [] = []"
  "non_null (Null # cs) = non_null cs"
  "non_null (Val v # cs) = v # non_null cs"
  by (simp_all add: non_null_def)

lemma non_null_set: "set (non_null cs) = {v. Val v \<in> set cs}"
proof (induction cs)
  case Nil
  show ?case by (simp add: non_null_simps)
next
  case (Cons c cs)
  then show ?case by (cases c) (auto simp: non_null_simps)
qed

lemma build_animation_Inr:
  "build_animation zhvi_series r0 = Inr anim \<Longrightarrow>
     \<exists>idxs. frame_indices (length zhvi_series) = Inr idxs \<and>
       frames anim = map (render_frame zhvi_series (y_limits zhvi_series)
                            (City r0 @ '', '' @ State r0)) idxs \<and>
       duration anim = duration_per_frame_seconds (length idxs)"
  by (auto simp: build_animation_def Let_def split: sum.splits)

lemma build_animation_total: "\<exists>anim. build_animation zhvi_series r0 = Inr anim"
  by (simp add: build_animation_def Let_def frame_indices_map)

lemma build_animation_two:
  "build_animation [a, b] r0 =
     Inr \<lparr>frames = [render_frame [a, b] (y_limits [a, b]) (City r0 @ '', '' @ State r0) 0,
                     render_frame [a, b] (y_limits [a, b]) (City r0 @ '', '' @ State r0) 1],
          duration = 3 / 10\<rparr>"
proof -
  have "frame_indices (length [a, b]) = Inr [0..<length [a, b]]"
    by (rule frame_indices_small) simp
  then have "frame_indices (length [a, b]) = Inr [0, 1]"
    by (simp add: upt_conv_Cons)
  then show ?thesis
    by (simp add: build_animation_def Let_def duration_per_frame_seconds_def)
qed

theorem C3_duration_tiers_witness:
  "(49::nat) < 50 \<and> duration_per_frame_seconds 49 = 3 / 10 \<and>
   (120::nat) < 121 \<and> duration_per_frame_seconds 121 = 1 / 10 \<and>
   (50::nat) \<le> 100 \<and> (100::nat) \<le> 120 \<and> duration_per_frame_seconds 100 = 15 / 100 \<and>
   (\<exists>anim. build_animation [Val 100, Val 110] example_row = Inr anim \<and>
      length (frames anim) = 2 \<and> duration anim = duration_per_frame_seconds 2)"
proof -
  obtain anim where a: "build_animation [Val 100, Val 110] example_row = Inr anim"
    and l: "length (frames anim) = 2"
    using build_animation_two[of "Val 100" "Val 110" example_row] by simp
  from C3_duration_tiers[of 100 "[Val 100, Val 110]" example_row anim] a l
  have "duration_per_frame_seconds 100 = 15 / 100"
    "duration anim = duration_per_frame_seconds 2" by simp_all
  moreover from C3_duration_tiers[of 49 "[]" example_row anim]
  have "duration_per_frame_seconds 49 = 3 / 10" by simp
  moreover from C3_duration_tiers[of 121 "[]" example_row anim]
  have "duration_per_frame_seconds 121 = 1 / 10" by simp
  ultimately show ?thesis using a l by auto
qed



lemma frames_share_ylim:
  "build_animation zhvi_series r0 = Inr anim \<Longrightarrow> f \<in> set (frames anim) \<Longrightarrow>
     ylim f = y_limits zhvi_series"
  by (auto simp: render_frame_def dest!: build_animation_Inr)

lemma y_padding_nonneg: "mn \<le> mx \<Longrightarrow> mn \<noteq> mx \<or> 0 \<le> mn \<Longrightarrow> 0 \<le> y_padding mn mx"
  by (auto simp: y_padding_def Let_def)

lemma overall_bounds:
  "Val v \<in> set zhvi_series \<Longrightarrow>
     overall_min_val zhvi_series \<le> v \<and> v \<le> overall_max_val zhvi_series"
proof -
  assume "Val v \<in> set zhvi_series"
  then have "v \<in> set (non_null zhvi_series)" by (simp add: non_null_set)
  then show ?thesis
    unfolding overall_min_val_def overall_max_val_def by (simp del: set_concat)
qed

lemma y_limits_contain:
  assumes "Val v \<in> set zhvi_series"
    and "overall_min_val zhvi_series \<noteq> overall_max_val zhvi_series \<or>
         0 \<le> overall_min_val zhvi_series"
  shows "fst (y_limits zhvi_series) \<le> v \<and> v \<le> snd (y_limits zhvi_series)"
proof -
  from overall_bounds[OF assms(1)]
  have b: "overall_min_val zhvi_series \<le> v" "v \<le> overall_max_val zhvi_series" by simp_all
  then have "overall_min_val zhvi_series \<le> overall_max_val zhvi_series" by simp
  with assms(2) have "0 \<le> y_padding (overall_min_val zhvi_series) (overall_max_val zhvi_series)"
    by (intro y_padding_nonneg) auto
  with b show ?thesis by (simp add: y_limits_def Let_def)
qed

text \<open>
  Claim C4 says that the y-limits are the same in every frame and that every value of
  the series lies between them. The first part holds (\<open>frames_share_ylim\<close>), and so does
  the second when the series is not constant or its minimum is not negative
  (\<open>y_limits_contain\<close>). For a constant negative series the fallback padding
  \<^verbatim>\<open>overall_min_val * 0.1\<close> is negative: with both values at -100 the limits are
  (-90, -110) in every frame, and -100 is below the lower one and above the upper one.
\<close>

theorem C4_negative_constant_series:
  "y_limits [Val (- 100), Val (- 100)] = (- 90, - 110) \<and>
   \<not> fst (y_limits [Val (- 100), Val (- 100)]) \<le> - 100 \<and>
   \<not> - 100 \<le> snd (y_limits [Val (- 100), Val (- 100)]) \<and>
   (\<exists>anim. build_animation [Val (- 100), Val (- 100)] example_row = Inr anim \<and>
      map ylim (frames anim) = [(- 90, - 110), (- 90, - 110)])"
proof -
  have m: "overall_min_val [Val (- 100), Val (- 100)] = - 100"
    "overall_max_val [Val (- 100), Val (- 100)] = - 100"
    by (simp_all add: overall_min_val_def overall_max_val_def non_null_simps)
  have y: "y_limits [Val (- 100), Val (- 100)] = (- 90, - 110)"
    by (simp add: y_limits_def Let_def m y_padding_def)
  show ?thesis
    unfolding build_animation_two y by (simp add: render_frame_def)
qed


lemma find_date_columns_filter:
  "find_date_columns lib cols = filter (\<lambda>c. strptime lib c \<noteq> None) cols"
  by (induction cols) (auto split: option.splits)

lemma select_squeeze_Series:
  "select_squeeze rs cs = Series s \<Longrightarrow> v \<in> set s \<Longrightarrow>
     \<exists>r \<in> set rs. \<exists>c \<in> set cs. v = cells r c"
  by (induction rs cs rule: select_squeeze.induct) auto

lemma check_series_Inr: "check_series z = Inr s \<Longrightarrow> z = Series s \<and> \<not> list_all isnull s"
  by (auto simp: check_series_def split: squeezed.splits if_splits)

lemma series_extractor_Inr:
  assumes "series_extractor lib df z = Inr (s, r0)"
  shows "\<exists>n rest c0 cs. py_int lib z = Some n \<and>
           filter (\<lambda>r. RegionName r = n) (rows df) = r0 # rest \<and>
           find_date_columns lib (columns df) = c0 # cs \<and>
           select_squeeze (r0 # rest) (c0 # cs) = Series s \<and> \<not> list_all isnull s"
  using assms
  by (auto simp: series_extractor_def split: option.splits list.splits sum.splits
           dest!: check_series_Inr)

text \<open>
  Claim C8. The value columns are exactly the headers that \<^verbatim>\<open>strptime\<close> with the format
  \<^verbatim>\<open>%Y-%m-%d\<close> accepts, in the order of the table; no other column is one, and every
  value of an extracted series is a cell under such a header.
\<close>

theorem C8_date_columns:
  "find_date_columns lib cols = filter (\<lambda>c. strptime lib c \<noteq> None) cols \<and>
   (c \<in> set (find_date_columns lib cols) \<longleftrightarrow> c \<in> set cols \<and> strptime lib c \<noteq> None) \<and>
   (series_extractor lib df z = Inr (s, r0) \<longrightarrow>
      (\<forall>v \<in> set s. \<exists>r \<in> set (rows df). \<exists>c \<in> set (columns df).
          strptime lib c \<noteq> None \<and> v = cells r c))"
proof -
  have a: "find_date_columns lib cols = filter (\<lambda>c. strptime lib c \<noteq> None) cols"
    by (rule find_date_columns_filter)
  have b: "c \<in> set (find_date_columns lib cols) \<longleftrightarrow> c \<in> set cols \<and> strptime lib c \<noteq> None"
    unfolding a by simp
  have "\<exists>r \<in> set (rows df). \<exists>c \<in> set (columns df). strptime lib c \<noteq> None \<and> v = cells r c"
    if ex: "series_extractor lib df z = Inr (s, r0)" and v: "v \<in> set s" for v
  proof -
    from series_extractor_Inr[OF ex] obtain n rest c0 cs where
      rs: "filter (\<lambda>r. RegionName r = n) (rows df) = r0 # rest" and
      dc: "find_date_columns lib (columns df) = c0 # cs" and
      sq: "select_squeeze (r0 # rest) (c0 # cs) = Series s" by blast
    from select_squeeze_Series[OF sq v] obtain r c where
      r: "r \<in> set (r0 # rest)" and c: "c \<in> set (c0 # cs)" and vc: "v = cells r c" by blast
    from r have "r \<in> set (rows df)" unfolding rs[symmetric] by simp
    moreover from c have "c \<in> set (columns df) \<and> strptime lib c \<noteq> None"
      unfolding dc[symmetric] find_date_columns_filter by simp
    ultimately show ?thesis using vc by blast
  qed
  with a b show ?thesis by blast
qed

lemma example_date_columns:
  "find_date_columns example_lib (columns example_df) = [''2020-01-31'', ''2020-02-29'']"
  by (simp add: example_lib_def example_df_def)

lemma example_rows_01234:
  "py_int example_lib ''01234'' = Some 1234"
  "filter (\<lambda>r. RegionName r = 1234) (rows example_df) = [example_row]"
  by (simp_all add: example_lib_def example_df_def example_row_def)

lemma example_series:
  "series_extractor example_lib example_df ''01234'' = Inr ([Val 100, Val 110], example_row)"
proof -
  have "select_squeeze [example_row] [''2020-01-31'', ''2020-02-29''] = Series [Val 100, Val 110]"
    by (simp add: example_row_def)
  then show ?thesis
    by (simp add: series_extractor_def example_rows_01234 example_date_columns
          check_series_def isnull_def)
qed

theorem C8_date_columns_witness:
  "find_date_columns example_lib (columns example_df) = [''2020-01-31'', ''2020-02-29''] \<and>
   ''State'' \<notin> set (find_date_columns example_lib (columns example_df)) \<and>
   series_extractor example_lib example_df ''01234'' = Inr ([Val 100, Val 110], example_row) \<and>
   (\<exists>r c. r \<in> set (rows example_df) \<and> c \<in> set (columns example_df) \<and>
      strptime example_lib c \<noteq> None \<and> Val 110 = cells r c)"
proof -
  note t = C8_date_columns[of example_lib "columns example_df" "''State''" example_df
      "''01234''" "[Val 100, Val 110]" example_row]
  have "strptime example_lib ''State'' = None" by (simp add: example_lib_def)
  with t have "''State'' \<notin> set (find_date_columns example_lib (columns example_df))" by simp
  moreover from t example_series
  have "\<forall>v \<in> set [Val 100, Val 110]. \<exists>r \<in> set (rows example_df). \<exists>c \<in> set (columns example_df).
          strptime example_lib c \<noteq> None \<and> v = cells r c" by blast
  then have "\<exists>r \<in> set (rows example_df). \<exists>c \<in> set (columns example_df).
      strptime example_lib c \<noteq> None \<and> Val 110 = cells r c" by simp
  then have "\<exists>r c. r \<in> set (rows example_df) \<and> c \<in> set (columns example_df) \<and>
      strptime example_lib c \<noteq> None \<and> Val 110 = cells r c" by blast
  ultimately show ?thesis using example_date_columns example_series by blast
qed

lemma select_squeeze_all_null:
  "select_squeeze rs cs = Series s \<Longrightarrow>
     list_all isnull s \<longleftrightarrow> (\<forall>r \<in> set rs. \<forall>c \<in> set cs. cells r c = Null)"
  by (induction rs cs rule: select_squeeze.induct) (auto simp: list_all_iff isnull_def)

lemma check_series_Abort:
  "check_series z = Inl (Abort m) \<Longrightarrow> m = NoZhviData \<and> (\<exists>s. z = Series s \<and> list_all isnull s)"
  by (auto simp: check_series_def split: squeezed.splits if_splits)

lemma extractor_abort_cases:
  assumes "series_extractor lib df z = Inl (Abort m)"
  shows "(py_int lib z = None \<and> m = InvalidZipFormat) \<or>
         (\<exists>n. py_int lib z = Some n \<and>
            (filter (\<lambda>r. RegionName r = n) (rows df) = [] \<and> m = ZipNotFound \<or>
             find_date_columns lib (columns df) = [] \<and> m = NoDateColumns \<or>
             m = NoZhviData \<and>
             (\<forall>r \<in> set (filter (\<lambda>r. RegionName r = n) (rows df)).
                \<forall>c \<in> set (find_date_columns lib (columns df)). cells r c = Null)))"
proof (cases "py_int lib z")
  case None
  with assms show ?thesis by (simp add: series_extractor_def)
next
  case (Some n)
  show ?thesis
  proof (cases "filter (\<lambda>r. RegionName r = n) (rows df)")
    case Nil
    with Some assms show ?thesis by (simp add: series_extractor_def)
  next
    case rs: (Cons r0 rest)
    show ?thesis
    proof (cases "find_date_columns lib (columns df)")
      case Nil
      with Some rs assms show ?thesis by (simp add: series_extractor_def)
    next
      case cs: (Cons c0 cs')
      from assms Some rs cs
      have "check_series (select_squeeze (r0 # rest) (c0 # cs')) = Inl (Abort m)"
        by (simp add: series_extractor_def split: sum.splits)
      from check_series_Abort[OF this] obtain s where
        m: "m = NoZhviData" and sq: "select_squeeze (r0 # rest) (c0 # cs') = Series s"
        and nu: "list_all isnull s" by blast
      from select_squeeze_all_null[OF sq] nu
      have "\<forall>r \<in> set (r0 # rest). \<forall>c \<in> set (c0 # cs'). cells r c = Null" by simp
      then have "\<forall>r \<in> set (filter (\<lambda>r. RegionName r = n) (rows df)).
                \<forall>c \<in> set (find_date_columns lib (columns df)). cells r c = Null"
        unfolding rs cs .
      with Some m show ?thesis by blast
    qed
  qed
qed

lemma extractor_abort_early:
  "py_int lib z = None \<Longrightarrow> series_extractor lib df z = Inl (Abort InvalidZipFormat)"
  "py_int lib z = Some n \<Longrightarrow> filter (\<lambda>r. RegionName r = n) (rows df) = [] \<Longrightarrow>
     series_extractor lib df z = Inl (Abort ZipNotFound)"
  "py_int lib z = Some n \<Longrightarrow> filter (\<lambda>r. RegionName r = n) (rows df) \<noteq> [] \<Longrightarrow>
     find_date_columns lib (columns df) = [] \<Longrightarrow>
     series_extractor lib df z = Inl (Abort NoDateColumns)"
  by (simp_all add: series_extractor_def split: list.splits)

lemma extractor_abort_no_data:
  assumes "py_int lib z = Some n"
    and "filter (\<lambda>r. RegionName r = n) (rows df) = [r]"
    and "find_date_columns lib (columns df) = c0 # c1 # cs"
    and "\<forall>c \<in> set (c0 # c1 # cs). cells r c = Null"
  shows "series_extractor lib df z = Inl (Abort NoZhviData)"
proof -
  have "list_all isnull (map (cells r) (c0 # c1 # cs))"
    using assms(4) by (simp add: list_all_iff isnull_def)
  then show ?thesis
    using assms(1-3) by (simp add: series_extractor_def check_series_def)
qed

lemma one_month_facts:
  "py_int example_lib ''12345'' = Some 12345"
  "filter (\<lambda>r. RegionName r = 12345) (rows one_month_df) = [empty_cell_row]"
  "find_date_columns example_lib (columns one_month_df) = [''2020-01-31'']"
  "cells empty_cell_row ''2020-01-31'' = Null"
  by (simp_all add: example_lib_def one_month_df_def empty_cell_row_def)

text \<open>
  Claim C6 says that the extractor prints a message and returns exactly when the
  identifier does not parse, no row matches, no header is a date, or every value of the
  matched row is empty. A message is printed only in these four cases
  (\<open>extractor_abort_cases\<close>), and the first three always print theirs
  (\<open>extractor_abort_early\<close>). The fourth prints when one row matches and there are at
  least two date columns (\<open>extractor_abort_no_data\<close>). With a single date column the
  selection is 1x1 and \<^verbatim>\<open>squeeze()\<close> returns a scalar: for the table below, whose only
  value is empty, no message is printed and \<^verbatim>\<open>zhvi_series.empty\<close> raises
  \<^verbatim>\<open>AttributeError\<close> out of the function.
\<close>

theorem C6_single_date_column_raises:
  "py_int example_lib ''12345'' = Some 12345 \<and>
   filter (\<lambda>r. RegionName r = 12345) (rows one_month_df) = [empty_cell_row] \<and>
   find_date_columns example_lib (columns one_month_df) = [''2020-01-31''] \<and>
   cells empty_cell_row ''2020-01-31'' = Null \<and>
   series_extractor example_lib one_month_df ''12345'' = Inl (Raise AttributeError) \<and>
   generate_zhvi_animation example_lib ''12345'' one_month_world =
     (Inl (Raise AttributeError), one_month_world)"
proof -
  have ex: "series_extractor example_lib one_month_df ''12345'' = Inl (Raise AttributeError)"
    by (simp add: series_extractor_def one_month_facts check_series_def)
  have "ensure_data one_month_world = (True, one_month_world)"
    by (simp add: ensure_data_def one_month_world_def)
  moreover have "read_csv one_month_world CSV_FILENAME = Some one_month_df"
    by (simp add: read_csv_def one_month_world_def)
  ultimately have "generate_zhvi_animation example_lib ''12345'' one_month_world =
     (Inl (Raise AttributeError), one_month_world)"
    by (simp add: generate_zhvi_animation_def ex)
  with ex one_month_facts show ?thesis by simp
qed

lemma gif_not_csv: "gif_filename z \<noteq> CSV_FILENAME"
  by (simp add: gif_filename_def CSV_FILENAME_def)

lemma ensure_data_cached: "fs w CSV_FILENAME \<noteq> None \<Longrightarrow> ensure_data w = (True, w)"
  by (simp add: ensure_data_def)

lemma download_data_calls: "net_calls (snd (download_data url filename w)) = net_calls w + 1"
  by (simp add: download_data_def Let_def split: response.splits)

lemma ensure_data_absent:
  "fs w CSV_FILENAME = None \<Longrightarrow> net_calls (snd (ensure_data w)) = net_calls w + 1"
  by (simp add: ensure_data_def download_data_calls)

lemma generate_cases:
  "generate_zhvi_animation lib z w = (res, w') \<Longrightarrow>
     (\<exists>e. res = Inl e \<and> w' = snd (ensure_data w)) \<or>
     (\<exists>anim. res = Inr (gif_filename z) \<and> fst (ensure_data w) \<and>
        w' = (snd (ensure_data w))\<lparr>fs := (fs (snd (ensure_data w)))(gif_filename z \<mapsto> Gif anim)\<rparr>)"
  by (cases "ensure_data w")
     (auto simp: generate_zhvi_animation_def split: bool.splits option.splits sum.splits prod.splits)

lemma generate_cached:
  assumes "fs w CSV_FILENAME \<noteq> None"
  shows "net_calls (snd (generate_zhvi_animation lib z w)) = net_calls w \<and>
         fs (snd (generate_zhvi_animation lib z w)) CSV_FILENAME = fs w CSV_FILENAME"
proof -
  obtain res w' where g: "generate_zhvi_animation lib z w = (res, w')"
    by (cases "generate_zhvi_animation lib z w")
  from generate_cases[OF g] ensure_data_cached[OF assms]
  have "net_calls w' = net_calls w \<and> fs w' CSV_FILENAME = fs w CSV_FILENAME"
    using gif_not_csv[of z] by auto
  with g show ?thesis by simp
qed

text \<open>
  Claim C7. When the file \<^verbatim>\<open>zhvi_zip_data.csv\<close> exists, a run makes no network call and
  leaves the file as it is, whatever the region and however the run ends; so a second
  request, for any region, makes none either.
\<close>

theorem C7_cached_file_no_network:
  assumes "fs w CSV_FILENAME \<noteq> None"
  shows "net_calls (snd (generate_zhvi_animation lib z w)) = net_calls w \<and>
         fs (snd (generate_zhvi_animation lib z w)) CSV_FILENAME = fs w CSV_FILENAME \<and>
         net_calls (snd (generate_zhvi_animation lib z'
                      (snd (generate_zhvi_animation lib z w)))) = net_calls w"
proof -
  define w1 where "w1 = snd (generate_zhvi_animation lib z w)"
  from generate_cached[OF assms, of lib z]
  have a: "net_calls w1 = net_calls w" and b: "fs w1 CSV_FILENAME = fs w CSV_FILENAME"
    unfolding w1_def by simp_all
  from b assms have "fs w1 CSV_FILENAME \<noteq> None" by simp
  from generate_cached[OF this, of lib z']
  have "net_calls (snd (generate_zhvi_animation lib z' w1)) = net_calls w1" by simp
  with a b show ?thesis unfolding w1_def by simp
qed

lemma example_run:
  "\<exists>anim. generate_zhvi_animation example_lib ''01234'' example_world =
     (Inr ''zhvi_animation_01234.gif'',
      example_world\<lparr>fs := (fs example_world)(''zhvi_animation_01234.gif'' \<mapsto> Gif anim)\<rparr>)"
proof -
  have e: "ensure_data example_world = (True, example_world)"
    by (simp add: ensure_data_def example_world_def)
  have r: "read_csv example_world CSV_FILENAME = Some example_df"
    by (simp add: read_csv_def example_world_def)
  obtain anim where b: "build_animation [Val 100, Val 110] example_row = Inr anim"
    using build_animation_total by blast
  have n: "gif_filename ''01234'' = ''zhvi_animation_01234.gif''"
    by (simp add: gif_filename_def)
  have "generate_zhvi_animation example_lib ''01234'' example_world =
     (Inr ''zhvi_animation_01234.gif'',
      example_world\<lparr>fs := (fs example_world)(''zhvi_animation_01234.gif'' \<mapsto> Gif anim)\<rparr>)"
    by (simp add: generate_zhvi_animation_def e r n example_series b)
  then show ?thesis by blast
qed


theorem C7_cached_file_no_network_witness:
  "fs example_world CSV_FILENAME \<noteq> None \<and>
   (\<exists>w1. generate_zhvi_animation example_lib ''01234'' example_world =
           (Inr ''zhvi_animation_01234.gif'', w1) \<and>
      net_calls w1 = 0 \<and>
      fs w1 CSV_FILENAME = Some (Csv (Table example_df)) \<and>
      net_calls (snd (generate_zhvi_animation example_lib ''12345'' w1)) = 0)"
proof -
  have c: "fs example_world CSV_FILENAME = Some (Csv (Table example_df))"
    by (simp add: example_world_def)
  then have h: "fs example_world CSV_FILENAME \<noteq> None" by simp
  have z: "net_calls example_world = 0" by (simp add: example_world_def)
  from example_run obtain w1 where
    g: "generate_zhvi_animation example_lib ''01234'' example_world =
          (Inr ''zhvi_animation_01234.gif'', w1)" by blast
  from C7_cached_file_no_network[OF h, of example_lib "''01234''" "''12345''"] g c z
  have "net_calls w1 = 0 \<and> fs w1 CSV_FILENAME = Some (Csv (Table example_df)) \<and>
      net_calls (snd (generate_zhvi_animation example_lib ''12345'' w1)) = 0" by simp
  with h g show ?thesis by blast
qed

text \<open>
  Claim C9. A run that succeeds writes its animation under the name
  \<^verbatim>\<open>zhvi_animation_\<close> followed by the identifier as it was passed and \<^verbatim>\<open>.gif\<close>; no other
  animation is written, and apart from the cached table no other file changes. For the
  identifier 01234, read as the integer 1234, the file is
  \<^verbatim>\<open>zhvi_animation_01234.gif\<close> and not \<^verbatim>\<open>zhvi_animation_1234.gif\<close>.
\<close>

theorem C9_gif_filename:
  assumes "generate_zhvi_animation lib zip_code_str w = (Inr name, w')"
  shows "name = ''zhvi_animation_'' @ zip_code_str @ ''.gif'' \<and>
         (\<exists>anim. fs w' name = Some (Gif anim)) \<and>
         (\<forall>f. f \<noteq> name \<and> f \<noteq> CSV_FILENAME \<longrightarrow> fs w' f = fs w f) \<and>
         (\<forall>f anim. fs w' f = Some (Gif anim) \<and> fs w f \<noteq> Some (Gif anim) \<longrightarrow> f = name)"
proof -
  from generate_cases[OF assms] obtain anim where
    n: "name = gif_filename zip_code_str" and
    w': "w' = (snd (ensure_data w))\<lparr>fs := (fs (snd (ensure_data w)))(gif_filename zip_code_str \<mapsto> Gif anim)\<rparr>"
    by auto
  have keep: "fs (snd (ensure_data w)) f = fs w f" if "f \<noteq> CSV_FILENAME" for f
    using that by (simp add: ensure_data_def download_data_def Let_def split: response.splits)
  have csv: "fs (snd (ensure_data w)) CSV_FILENAME = fs w CSV_FILENAME \<or>
             (\<exists>c. fs (snd (ensure_data w)) CSV_FILENAME = Some (Csv c))"
    by (simp add: ensure_data_def download_data_def Let_def split: response.splits)
  have 1: "name = ''zhvi_animation_'' @ zip_code_str @ ''.gif''"
    using n by (simp add: gif_filename_def)
  have 2: "\<exists>anim. fs w' name = Some (Gif anim)" using n w' by simp
  have 3: "\<forall>f. f \<noteq> name \<and> f \<noteq> CSV_FILENAME \<longrightarrow> fs w' f = fs w f"
    using n w' keep by simp
  have 4: "\<forall>f anim. fs w' f = Some (Gif anim) \<and> fs w f \<noteq> Some (Gif anim) \<longrightarrow> f = name"
  proof (intro allI impI)
    fix f a assume h: "fs w' f = Some (Gif a) \<and> fs w f \<noteq> Some (Gif a)"
    show "f = name"
    proof (rule ccontr)
      assume ne: "f \<noteq> name"
      then have eq: "fs w' f = fs (snd (ensure_data w)) f" using n w' by simp
      show False
      proof (cases "f = CSV_FILENAME")
        case True
        with csv eq h show False by auto
      next
        case False
        with keep eq h show False by simp
      qed
    qed
  qed
  from 1 2 3 4 show ?thesis by blast
qed



theorem C9_gif_filename_witness:
  "py_int example_lib ''01234'' = Some 1234 \<and>
   (\<exists>w'. generate_zhvi_animation example_lib ''01234'' example_world =
           (Inr ''zhvi_animation_01234.gif'', w') \<and>
      (\<exists>anim. fs w' ''zhvi_animation_01234.gif'' = Some (Gif anim)) \<and>
      fs w' ''zhvi_animation_1234.gif'' = None)"
proof -
  from example_run obtain w' where
    g: "generate_zhvi_animation example_lib ''01234'' example_world =
          (Inr ''zhvi_animation_01234.gif'', w')" by blast
  define other where "other = ''zhvi_animation_1234.gif''"
  define name where "name = ''zhvi_animation_01234.gif''"
  have ne: "other \<noteq> name \<and> other \<noteq> CSV_FILENAME"
    unfolding other_def name_def by (simp add: CSV_FILENAME_def)
  have old: "fs example_world other = None"
    using ne by (simp add: example_world_def)
  from C9_gif_filename[OF g]
  have a: "\<exists>anim. fs w' name = Some (Gif anim)"
    and b: "\<forall>f. f \<noteq> name \<and> f \<noteq> CSV_FILENAME \<longrightarrow> fs w' f = fs example_world f"
    unfolding name_def by blast+
  from b ne have "fs w' other = fs example_world other" by blast
  with old have c: "fs w' other = None" by simp
  from g a c have "generate_zhvi_animation example_lib ''01234'' example_world = (Inr name, w') \<and>
      (\<exists>anim. fs w' name = Some (Gif anim)) \<and> fs w' other = None"
    unfolding name_def by blast
  then have "\<exists>w'. generate_zhvi_animation example_lib ''01234'' example_world = (Inr name, w') \<and>
      (\<exists>anim. fs w' name = Some (Gif anim)) \<and> fs w' other = None" ..
  with example_rows_01234(1) show ?thesis unfolding name_def other_def by (rule conjI)
qed

end
